theory Spec2Isabelle
  imports Main "HOL-Library.Sublist" "HOL-Library.AList" "HOL-Library.Char_ord"
    "HOL-Library.List_Lexorder"
begin

section \<open>Strings\<close>

text \<open>
  Python strings are modelled as \<^typ>\<open>string\<close>. The only characters the program
  distinguishes are the colon, the line feed and the characters of its two literals.
\<close>

definition colon :: char where
  "colon = CHR '':''"

definition newline :: char where
  "newline = CHR 0x0A"

text \<open>\<^verbatim>\<open>str.replace(old, new)\<close>: every non-overlapping occurrence of \<open>old\<close>, scanning
  from the left. With an empty \<open>old\<close> Python puts \<open>new\<close> before every character and at
  the end.\<close>

function replace_scan :: "string \<Rightarrow> string \<Rightarrow> string \<Rightarrow> string" where
  "replace_scan old new s =
     (if old \<noteq> [] \<and> prefix old s then new @ replace_scan old new (drop (length old) s)
      else case s of [] \<Rightarrow> [] | c # cs \<Rightarrow> c # replace_scan old new cs)"
  by pat_completeness auto
termination
  by (relation "measure (\<lambda>(old, new, s). length s)") (auto simp: prefix_def)

declare replace_scan.simps [simp del]

definition str_replace :: "string \<Rightarrow> string \<Rightarrow> string \<Rightarrow> string" where
  "str_replace old new s =
     (if old = [] then new @ concat (map (\<lambda>c. c # new) s) else replace_scan old new s)"

section \<open>Image locators\<close>

record image_ref =
  repository :: string
  tag :: string
  full_image_name :: string

text \<open>
  The pattern of \<^verbatim>\<open>extract_web_apps_images\<close> is
  \<^verbatim>\<open>^(?:.*\.azurecr\.io/)?([^:]+):(.+)$\<close>, matched with \<^verbatim>\<open>re.match\<close> and no flags.

  \<open>host_splits s\<close> lists what is left of \<open>s\<close> after each way the optional group
  \<^verbatim>\<open>.*\.azurecr\.io/\<close> can match at the start, in the order the backtracking matcher
  tries them: the greedy \<^verbatim>\<open>.*\<close> takes the longest run first, and never crosses a line
  feed.
\<close>

definition host_suffix :: string where
  "host_suffix = ''.azurecr.io/''"

fun host_splits :: "string \<Rightarrow> string list" where
  "host_splits [] = []"
| "host_splits (c # cs) =
     (if c = newline then [] else host_splits cs) @
     (if prefix host_suffix (c # cs) then [drop (length host_suffix) (c # cs)] else [])"

text \<open>
  \<open>match_repo_tag r\<close> matches \<^verbatim>\<open>([^:]+):(.+)$\<close> against all of \<open>r\<close>. The class
  \<^verbatim>\<open>[^:]+\<close> cannot give a character back (the next one would not be a colon), so group 1
  is the non-empty text before the first colon. \<^verbatim>\<open>.+\<close> takes characters other than the
  line feed, and \<^verbatim>\<open>$\<close> holds at the end or just before a line feed that ends the input.
\<close>

definition match_repo_tag :: "string \<Rightarrow> (string \<times> string) option" where
  "match_repo_tag r =
     (let repo = takeWhile (\<lambda>c. c \<noteq> colon) r;
          after = dropWhile (\<lambda>c. c \<noteq> colon) r
      in if repo = [] \<or> after = [] then None
         else
           let t = takeWhile (\<lambda>c. c \<noteq> newline) (tl after);
               trailer = dropWhile (\<lambda>c. c \<noteq> newline) (tl after)
           in if t \<noteq> [] \<and> (trailer = [] \<or> trailer = [newline]) then Some (repo, t)
              else None)"

fun first_match :: "('a \<Rightarrow> 'b option) \<Rightarrow> 'a list \<Rightarrow> 'b option" where
  "first_match f [] = None"
| "first_match f (x # xs) = (case f x of Some y \<Rightarrow> Some y | None \<Rightarrow> first_match f xs)"

definition locator_match :: "string \<Rightarrow> (string \<times> string) option" where
  "locator_match s = first_match match_repo_tag (host_splits s @ [s])"

text \<open>\<^verbatim>\<open>Reaper.extract_web_apps_images\<close>. Nothing in the \<^verbatim>\<open>try\<close> block can raise on a
  string, so the handler has no branch here.\<close>

definition extract_web_apps_images :: "string \<Rightarrow> image_ref option" where
  "extract_web_apps_images registry_url =
     (if registry_url = [] then None
      else case locator_match registry_url of
             Some (repository_name, t) \<Rightarrow>
               Some \<lparr>repository = repository_name, tag = t,
                     full_image_name = repository_name @ '':'' @ t\<rparr>
           | None \<Rightarrow> None)"


section \<open>The provider\<close>

text \<open>
  The Azure clients are collaborators outside the repository; they are parameters of the
  model. A call that raises returns \<open>Inl\<close> of the text \<^verbatim>\<open>str(e)\<close> of the exception. The
  registry is a state \<open>'st\<close>: the two deletion calls return the state they leave behind, also
  when they raise.

  A Python \<^verbatim>\<open>set\<close> of strings is a list here, read as the set of its elements; its order
  stands for the iteration order, which Python leaves open. \<^verbatim>\<open>set.add\<close> is
  \<^const>\<open>List.insert\<close>, \<^verbatim>\<open>set.update\<close> is \<^const>\<open>List.union\<close>.
\<close>

type_synonym sdk_error = string

record site_config =
  linux_fx_version :: "string option"
  windows_fx_version :: "string option"

record manifest =
  digest :: string
  manifest_tags :: "string list option"

record 'st azure =
  web_apps_get :: "string \<Rightarrow> string \<Rightarrow> sdk_error + site_config option"
  web_apps_list_slots :: "string \<Rightarrow> string \<Rightarrow> string list \<times> sdk_error option"
  web_apps_get_configuration_slot :: "string \<Rightarrow> string \<Rightarrow> string \<Rightarrow> sdk_error + site_config"
  list_tag_properties :: "'st \<Rightarrow> string \<Rightarrow> sdk_error + string list"
  delete_tag :: "'st \<Rightarrow> string \<Rightarrow> string \<Rightarrow> (sdk_error + unit) \<times> 'st"
  list_manifest_properties :: "'st \<Rightarrow> string \<Rightarrow> sdk_error + manifest list"
  delete_manifest :: "'st \<Rightarrow> string \<Rightarrow> string \<Rightarrow> (sdk_error + unit) \<times> 'st"

text \<open>
  \<^verbatim>\<open>web_apps.get\<close> gives the \<^verbatim>\<open>site_config\<close> of the production slot, which may be
  \<^verbatim>\<open>None\<close>. \<^verbatim>\<open>web_apps.list_slots\<close> gives the slot names that its iterator yields and
  the exception that ends the iteration early, if one does.
\<close>

section \<open>Collecting the images in use\<close>

definition docker_marker :: string where
  "docker_marker = ''DOCKER|''"

text \<open>
  One descriptor field, as \<^verbatim>\<open>get_webapps_slots_images\<close> treats it in each of its four
  places (Linux and Windows, production slot and deployment slot):
  \<^verbatim>\<open>hasattr(c, f) and c.f\<close> holds for a present, non-empty string.
\<close>

definition collect_fx_version ::
  "string option \<Rightarrow> string list \<times> string list \<Rightarrow> string list \<times> string list" where
  "collect_fx_version fx acc =
     (case acc of (images, repositories) \<Rightarrow>
        (case fx of
           None \<Rightarrow> (images, repositories)
         | Some fx_version \<Rightarrow>
             if fx_version \<noteq> [] \<and> prefix docker_marker fx_version then
               (let image_url = str_replace docker_marker [] fx_version
                in case extract_web_apps_images image_url of
                     Some image_extracted \<Rightarrow>
                       (List.insert (full_image_name image_extracted) images,
                        List.insert (repository image_extracted) repositories)
                   | None \<Rightarrow> (images, repositories))
             else (images, repositories)))"

definition collect_config ::
  "site_config \<Rightarrow> string list \<times> string list \<Rightarrow> string list \<times> string list" where
  "collect_config c acc =
     collect_fx_version (windows_fx_version c) (collect_fx_version (linux_fx_version c) acc)"

text \<open>\<^verbatim>\<open>slot.name.split('/')[-1]\<close>\<close>

definition last_segment :: "string \<Rightarrow> string" where
  "last_segment s = rev (takeWhile (\<lambda>c. c \<noteq> CHR ''/'') (rev s))"

fun collect_slots ::
  "'st azure \<Rightarrow> string \<Rightarrow> string \<Rightarrow> string list \<Rightarrow> string list \<times> string list \<Rightarrow>
   string list \<times> string list" where
  "collect_slots az rg web_app_name [] acc = acc"
| "collect_slots az rg web_app_name (name # slots) acc =
     collect_slots az rg web_app_name slots
       (case web_apps_get_configuration_slot az rg web_app_name (last_segment name) of
          Inr slot_config \<Rightarrow> collect_config slot_config acc
        | Inl e \<Rightarrow> acc)"

definition get_webapps_slots_images ::
  "'st azure \<Rightarrow> string \<Rightarrow> string \<Rightarrow> string list \<times> string list" where
  "get_webapps_slots_images az rg web_app_name =
     (let prod =
            (case web_apps_get az rg web_app_name of
               Inr (Some c) \<Rightarrow> collect_config c ([], [])
             | Inr None \<Rightarrow> ([], [])
             | Inl e \<Rightarrow> ([], []))
      in collect_slots az rg web_app_name (fst (web_apps_list_slots az rg web_app_name)) prod)"

fun get_all_web_apps_data ::
  "'st azure \<Rightarrow> string \<Rightarrow> string list \<Rightarrow> string list \<times> string list \<Rightarrow>
   string list \<times> string list" where
  "get_all_web_apps_data az rg [] acc = acc"
| "get_all_web_apps_data az rg (web_app # web_apps) acc =
     (case acc of (all_images, all_repositories) \<Rightarrow>
        (case get_webapps_slots_images az rg web_app of
           (images, repositories) \<Rightarrow>
             get_all_web_apps_data az rg web_apps
               (if images \<noteq> [] then List.union all_images images else all_images,
                if repositories \<noteq> [] then List.union all_repositories repositories
                else all_repositories)))"

section \<open>Identifying unused images\<close>

definition get_acr_repository_tags :: "'st azure \<Rightarrow> 'st \<Rightarrow> string \<Rightarrow> string list" where
  "get_acr_repository_tags az st repository_name =
     (case list_tag_properties az st repository_name of
        Inr tag_list \<Rightarrow> tag_list
      | Inl e \<Rightarrow> [])"

text \<open>The inner loop of \<^verbatim>\<open>identify_unused_images\<close>, with its two lists.\<close>

fun classify_tags ::
  "string list \<Rightarrow> string \<Rightarrow> string list \<Rightarrow> string list \<times> string list \<Rightarrow>
   string list \<times> string list" where
  "classify_tags protected_images repo [] acc = acc"
| "classify_tags protected_images repo (t # ts) acc =
     (case acc of (unused_tags, protected_tags) \<Rightarrow>
        if repo @ '':'' @ t \<notin> set protected_images
        then classify_tags protected_images repo ts (unused_tags @ [t], protected_tags)
        else classify_tags protected_images repo ts (unused_tags, protected_tags @ [t]))"

text \<open>A Python \<^verbatim>\<open>dict\<close> is an association list in insertion order; \<^verbatim>\<open>d[k] = v\<close> is
  \<^const>\<open>AList.update\<close>, which keeps the place of a key already there.\<close>

fun identify_loop ::
  "'st azure \<Rightarrow> 'st \<Rightarrow> string list \<Rightarrow> string list \<Rightarrow> (string \<times> string list) list \<Rightarrow>
   (string \<times> string list) list" where
  "identify_loop az st protected_images [] unused_images = unused_images"
| "identify_loop az st protected_images (repo # repositories) unused_images =
     (let all_tags = get_acr_repository_tags az st repo;
          unused_tags = fst (classify_tags protected_images repo all_tags ([], []))
      in identify_loop az st protected_images repositories
           (if unused_tags \<noteq> [] then AList.update repo unused_tags unused_images
            else unused_images))"

definition identify_unused_images ::
  "'st azure \<Rightarrow> 'st \<Rightarrow> string list \<Rightarrow> string list \<Rightarrow> (string \<times> string list) list" where
  "identify_unused_images az st repositories protected_images =
     identify_loop az st protected_images repositories []"

section \<open>Deleting unused images\<close>

record outcome =
  attempted :: int
  successful :: int
  failed :: int
  errors :: "string list"

text \<open>
  The loop over the tags of one repository. \<^verbatim>\<open>deletion_results[repository][...] += 1\<close>
  changes the entry in place: \<^const>\<open>AList.map_entry\<close>. Only \<^verbatim>\<open>delete_tag\<close> can raise
  inside the \<^verbatim>\<open>try\<close>.
\<close>

fun delete_tags ::
  "'st azure \<Rightarrow> bool \<Rightarrow> string \<Rightarrow> string list \<Rightarrow> (string \<times> outcome) list \<times> 'st \<Rightarrow>
   (string \<times> outcome) list \<times> 'st" where
  "delete_tags az dry_run repo [] acc = acc"
| "delete_tags az dry_run repo (t # ts) acc =
     (case acc of (deletion_results, st) \<Rightarrow>
        if \<not> dry_run then
          (case delete_tag az st repo t of
             (Inr u, st') \<Rightarrow>
               delete_tags az dry_run repo ts
                 (AList.map_entry repo (\<lambda>r. r\<lparr>successful := successful r + 1\<rparr>)
                    deletion_results, st')
           | (Inl e, st') \<Rightarrow>
               delete_tags az dry_run repo ts
                 (AList.map_entry repo
                    (\<lambda>r. r\<lparr>failed := failed r + 1,
                           errors := errors r @
                             [''Failed to delete '' @ repo @ '':'' @ t @ '': '' @ e]\<rparr>)
                    deletion_results, st'))
        else
          delete_tags az dry_run repo ts
            (AList.map_entry repo (\<lambda>r. r\<lparr>successful := successful r + 1\<rparr>)
               deletion_results, st))"

fun delete_loop ::
  "'st azure \<Rightarrow> bool \<Rightarrow> (string \<times> string list) list \<Rightarrow> (string \<times> outcome) list \<times> 'st \<Rightarrow>
   (string \<times> outcome) list \<times> 'st" where
  "delete_loop az dry_run [] acc = acc"
| "delete_loop az dry_run ((repo, tags) # unused_images) acc =
     (case acc of (deletion_results, st) \<Rightarrow>
        delete_loop az dry_run unused_images
          (delete_tags az dry_run repo tags
             (AList.update repo
                \<lparr>attempted = int (length tags), successful = 0, failed = 0, errors = []\<rparr>
                deletion_results, st)))"

definition delete_unused_images ::
  "'st azure \<Rightarrow> 'st \<Rightarrow> (string \<times> string list) list \<Rightarrow> bool \<Rightarrow>
   (string \<times> outcome) list \<times> 'st" where
  "delete_unused_images az st unused_images dry_run =
     delete_loop az dry_run unused_images ([], st)"

section \<open>Untagged manifests\<close>

text \<open>
  \<^verbatim>\<open>cleanup_unused_manifests\<close> returns nothing; what it does is in its log and in the
  registry. The model returns the pairs (repository, digest) of its
  \<^verbatim>\<open>Found untagged manifest\<close> lines, in order, and the registry it leaves.
  \<^verbatim>\<open>not manifest.tags\<close> holds for \<^verbatim>\<open>None\<close> and for the empty list.
\<close>

definition untagged :: "manifest \<Rightarrow> bool" where
  "untagged m = (case manifest_tags m of None \<Rightarrow> True | Some ts \<Rightarrow> ts = [])"

fun cleanup_repository ::
  "'st azure \<Rightarrow> bool \<Rightarrow> string \<Rightarrow> manifest list \<Rightarrow> (string \<times> string) list \<times> 'st \<Rightarrow>
   (string \<times> string) list \<times> 'st" where
  "cleanup_repository az dry_run repo [] acc = acc"
| "cleanup_repository az dry_run repo (m # manifests) acc =
     (case acc of (found, st) \<Rightarrow>
        if untagged m then
          (if \<not> dry_run then
             cleanup_repository az dry_run repo manifests
               (found @ [(repo, digest m)], snd (delete_manifest az st repo (digest m)))
           else cleanup_repository az dry_run repo manifests (found @ [(repo, digest m)], st))
        else cleanup_repository az dry_run repo manifests (found, st))"

fun cleanup_loop ::
  "'st azure \<Rightarrow> bool \<Rightarrow> string list \<Rightarrow> (string \<times> string) list \<times> 'st \<Rightarrow>
   (string \<times> string) list \<times> 'st" where
  "cleanup_loop az dry_run [] acc = acc"
| "cleanup_loop az dry_run (repo # repositories) acc =
     cleanup_loop az dry_run repositories
       (case list_manifest_properties az (snd acc) repo of
          Inr manifests \<Rightarrow> cleanup_repository az dry_run repo manifests acc
        | Inl e \<Rightarrow> acc)"

definition cleanup_unused_manifests ::
  "'st azure \<Rightarrow> 'st \<Rightarrow> string list \<Rightarrow> bool \<Rightarrow> (string \<times> string) list \<times> 'st" where
  "cleanup_unused_manifests az st repositories dry_run =
     cleanup_loop az dry_run repositories ([], st)"

section \<open>The summary\<close>

text \<open>
  \<^verbatim>\<open>print_summary\<close> writes to the log; the record holds what it writes.
  \<^verbatim>\<open>sorted\<close> of a set of strings is \<^const>\<open>sorted_list_of_set\<close> in the lexicographic order
  of the characters' codes. A list guarded by \<^verbatim>\<open>if s:\<close> is not written when empty, which
  the empty list stands for.
\<close>

record summary =
  repositories_analyzed :: nat
  protected_count :: nat
  total_attempted :: int
  total_successful :: int
  total_failed :: int
  protected_listed :: "string list"
  per_repository :: "(string \<times> outcome) list"
  repos_with_no_unused :: "string list"

definition print_summary ::
  "(string \<times> outcome) list \<Rightarrow> string list \<Rightarrow> string list \<Rightarrow> summary" where
  "print_summary deletion_results protected_images repositories_cleaned =
     \<lparr>repositories_analyzed = card (set repositories_cleaned),
      protected_count = card (set protected_images),
      total_attempted = sum_list (map (\<lambda>(k, result). attempted result) deletion_results),
      total_successful = sum_list (map (\<lambda>(k, result). successful result) deletion_results),
      total_failed = sum_list (map (\<lambda>(k, result). failed result) deletion_results),
      protected_listed = sorted_list_of_set (set protected_images),
      per_repository = deletion_results,
      repos_with_no_unused =
        sorted_list_of_set (set repositories_cleaned - set (map fst deletion_results))\<rparr>"

section \<open>Configuration\<close>

text \<open>
  What \<^verbatim>\<open>json.load\<close> returns. Numbers are kept as their text: the program only passes
  them to \<^verbatim>\<open>str\<close>.
\<close>

datatype json =
  JNull | JBool bool | JNumber string | JString string | JArray "json list"
  | JObject "(string \<times> json) list"

datatype setup_error =
  FileNotFoundError string | JSONDecodeError string | ValueError string | KeyError string
  | ClientError string

text \<open>
  The file system and \<^verbatim>\<open>json.load\<close> are outside the repository: \<open>fs path\<close> is \<open>None\<close>
  when \<^verbatim>\<open>Path(path).exists()\<close> is false, and otherwise what opening and loading the file
  gives: the value, or the exception raised (a \<^const>\<open>JSONDecodeError\<close> with its
  \<^verbatim>\<open>msg\<close>, or any other). \<open>py_str\<close> is \<^verbatim>\<open>str\<close> on a loaded value that is not a string.
\<close>

type_synonym filesystem = "string \<Rightarrow> (setup_error + json) option"

fun str_of :: "(json \<Rightarrow> string) \<Rightarrow> json \<Rightarrow> string" where
  "str_of py_str (JString s) = s"
| "str_of py_str v = py_str v"

definition load_configs ::
  "filesystem \<Rightarrow> (json \<Rightarrow> string) \<Rightarrow> string \<Rightarrow> setup_error + string list" where
  "load_configs fs py_str config_path =
     (case fs config_path of
        None \<Rightarrow>
          Inl (FileNotFoundError (''Configuration file '' @ config_path @ '' does not exist.''))
      | Some (Inl (JSONDecodeError msg)) \<Rightarrow>
          Inl (JSONDecodeError (''Configuration file '' @ config_path @
                 '' is not a valid JSON file. file: '' @ msg))
      | Some (Inl e) \<Rightarrow>
          Inl (ValueError (''Configuration file '' @ config_path @ '' is not a valid JSON file.''))
      | Some (Inr (JObject config)) \<Rightarrow>
          (case map_of config ''webApps'' of
             None \<Rightarrow> Inr []
           | Some (JArray apps) \<Rightarrow> Inr (map (str_of py_str) apps)
           | Some v \<Rightarrow>
               Inl (ValueError (''Configuration file '' @ config_path @
                      '' is not a valid JSON file.'')))
      | Some (Inr v) \<Rightarrow>
          Inl (ValueError (''Configuration file '' @ config_path @ '' is not a valid JSON file.'')))"

section \<open>The run\<close>

text \<open>
  The arguments as \<^verbatim>\<open>parse_args\<close> returns them (\<^verbatim>\<open>args.execute\<close> is \<open>arg_execute\<close>,
  and so on). \<^verbatim>\<open>--dry-run\<close> is parsed and never read: the mode is
  \<^verbatim>\<open>not args.execute\<close>.
\<close>

record args =
  arg_subscription_id :: string
  arg_resource_group :: string
  arg_registry_name :: string
  arg_config_path :: string
  arg_dry_run :: bool
  arg_execute :: bool
  arg_cleanup_manifests :: bool

text \<open>
  \<^verbatim>\<open>Reaper.__init__\<close> reads three environment variables, each a \<^verbatim>\<open>KeyError\<close> when
  unset, and builds the clients; \<open>clients\<close> is what building them gives.
\<close>

definition reaper_init ::
  "(string \<Rightarrow> string option) \<Rightarrow> setup_error + 'st azure \<Rightarrow> setup_error + 'st azure" where
  "reaper_init environ clients =
     (case environ ''AZURE_TENANT_ID'' of
        None \<Rightarrow> Inl (KeyError ''AZURE_TENANT_ID'')
      | Some tenant_id \<Rightarrow>
          (case environ ''AZURE_CLIENT_ID'' of
             None \<Rightarrow> Inl (KeyError ''AZURE_CLIENT_ID'')
           | Some client_id \<Rightarrow>
               (case environ ''AZURE_CLIENT_SECRET'' of
                  None \<Rightarrow> Inl (KeyError ''AZURE_CLIENT_SECRET'')
                | Some client_secret \<Rightarrow> clients)))"

text \<open>
  What a run leaves: the exit status of the process, the summary if one was printed, the
  untagged manifests found if the cleanup pass ran (\<open>None\<close> if it did not), and the
  registry.
\<close>

record 'st run =
  exit_status :: int
  report :: "summary option"
  manifests_found :: "(string \<times> string) list option"
  registry :: 'st

definition stopped :: "int \<Rightarrow> 'st \<Rightarrow> 'st run" where
  "stopped status st =
     \<lparr>exit_status = status, report = None, manifests_found = None, registry = st\<rparr>"

text \<open>
  \<^verbatim>\<open>main\<close>. \<^verbatim>\<open>parser.error\<close> exits with status 2. \<^verbatim>\<open>sys.exit(0)\<close> raises
  \<^verbatim>\<open>SystemExit\<close>, which \<^verbatim>\<open>except Exception\<close> does not catch. Past the configuration,
  every call catches its own exceptions, so the handler of \<^verbatim>\<open>main\<close> is reached from
  \<^verbatim>\<open>Reaper(...)\<close> and \<^verbatim>\<open>load_configs\<close> only.
\<close>

definition main ::
  "args \<Rightarrow> (string \<Rightarrow> string option) \<Rightarrow> setup_error + 'st azure \<Rightarrow> filesystem \<Rightarrow>
   (json \<Rightarrow> string) \<Rightarrow> 'st \<Rightarrow> 'st run" where
  "main a environ clients fs py_str st =
     (let dry_run = \<not> arg_execute a in
      if arg_subscription_id a = [] \<or> arg_resource_group a = [] \<or> arg_registry_name a = []
         \<or> arg_config_path a = []
      then stopped 2 st
      else
        case reaper_init environ clients of
          Inl e \<Rightarrow> stopped 1 st
        | Inr az \<Rightarrow>
            (case load_configs fs py_str (arg_config_path a) of
               Inl e \<Rightarrow> stopped 1 st
             | Inr web_apps \<Rightarrow>
                 if web_apps = [] then stopped 0 st
                 else
                   (case get_all_web_apps_data az (arg_resource_group a) web_apps ([], []) of
                      (protected_images, repositories_to_clean) \<Rightarrow>
                        if repositories_to_clean = [] then stopped 0 st
                        else
                          (let unused_images =
                                 identify_unused_images az st repositories_to_clean
                                   protected_images
                           in if unused_images = [] then
                                \<lparr>exit_status = 0,
                                 report = Some (print_summary [] protected_images
                                                  repositories_to_clean),
                                 manifests_found = None, registry = st\<rparr>
                              else
                                (case delete_unused_images az st unused_images dry_run of
                                   (deletion_results, st1) \<Rightarrow>
                                     if arg_cleanup_manifests a then
                                       (case cleanup_unused_manifests az st1
                                               repositories_to_clean dry_run of
                                          (found, st2) \<Rightarrow>
                                            \<lparr>exit_status = 0,
                                             report = Some (print_summary deletion_results
                                                              protected_images
                                                              repositories_to_clean),
                                             manifests_found = Some found, registry = st2\<rparr>)
                                     else
                                       \<lparr>exit_status = 0,
                                        report = Some (print_summary deletion_results
                                                         protected_images repositories_to_clean),
                                        manifests_found = None, registry = st1\<rparr>)))))"

section \<open>The effect of the tag loop on one entry\<close>

text \<open>
  Two functions for the proofs: what the loop over the tags of \<open>repo\<close> does to the entry
  of \<open>repo\<close>, and the registry it leaves. \<open>delete_tags_entry\<close> below shows that
  \<^const>\<open>delete_tags\<close> is these two.
\<close>

fun tally :: "'st azure \<Rightarrow> bool \<Rightarrow> string \<Rightarrow> string list \<Rightarrow> 'st \<Rightarrow> outcome \<Rightarrow> outcome" where
  "tally az dry_run repo [] st r = r"
| "tally az dry_run repo (t # ts) st r =
     (if \<not> dry_run then
        (case delete_tag az st repo t of
           (Inr u, st') \<Rightarrow> tally az dry_run repo ts st' (r\<lparr>successful := successful r + 1\<rparr>)
         | (Inl e, st') \<Rightarrow>
             tally az dry_run repo ts st'
               (r\<lparr>failed := failed r + 1,
                  errors := errors r @ [''Failed to delete '' @ repo @ '':'' @ t @ '': '' @ e]\<rparr>))
      else tally az dry_run repo ts st (r\<lparr>successful := successful r + 1\<rparr>))"

fun after_tags :: "'st azure \<Rightarrow> bool \<Rightarrow> string \<Rightarrow> string list \<Rightarrow> 'st \<Rightarrow> 'st" where
  "after_tags az dry_run repo [] st = st"
| "after_tags az dry_run repo (t # ts) st =
     (if \<not> dry_run then after_tags az dry_run repo ts (snd (delete_tag az st repo t))
      else after_tags az dry_run repo ts st)"

text \<open>The loop over the repositories, with the entry of each written once.\<close>

fun delete_fold ::
  "'st azure \<Rightarrow> bool \<Rightarrow> (string \<times> string list) list \<Rightarrow> (string \<times> outcome) list \<times> 'st \<Rightarrow>
   (string \<times> outcome) list \<times> 'st" where
  "delete_fold az dry_run [] acc = acc"
| "delete_fold az dry_run ((repo, tags) # unused_images) (res, st) =
     delete_fold az dry_run unused_images
       (AList.update repo
          (tally az dry_run repo tags st
             \<lparr>attempted = int (length tags), successful = 0, failed = 0, errors = []\<rparr>) res,
        after_tags az dry_run repo tags st)"

text \<open>
  The content items of a repository with no tag pointing to them, as the registry lists
  them in state \<open>st\<close>; none when the listing fails.
\<close>

definition untagged_in :: "'st azure \<Rightarrow> 'st \<Rightarrow> string \<Rightarrow> (string \<times> string) list" where
  "untagged_in az st repo =
     (case list_manifest_properties az st repo of
        Inr ms \<Rightarrow> map (\<lambda>m. (repo, digest m)) (filter untagged ms)
      | Inl e \<Rightarrow> [])"

section \<open>An in-memory provider\<close>

text \<open>
  The provider used in the concrete instances below: web apps with fixed configurations, and
  a registry that holds (repository, tag) pairs and manifests and keeps a log of the
  \<^verbatim>\<open>delete_tag\<close> calls it receives. Deleting a tag listed in \<open>failing\<close> raises.
\<close>

record reg =
  reg_tags :: "(string \<times> string) list"
  reg_manifests :: "(string \<times> manifest) list"
  reg_calls :: "(string \<times> string) list"

definition fake_azure ::
  "(string \<times> site_config) list \<Rightarrow> (string \<times> string list) list \<Rightarrow>
   ((string \<times> string) \<times> site_config) list \<Rightarrow> (string \<times> string) list \<Rightarrow> reg azure" where
  "fake_azure apps slots slot_configs failing =
     \<lparr>web_apps_get =
        (\<lambda>rg name. case map_of apps name of Some c \<Rightarrow> Inr (Some c) | None \<Rightarrow> Inl ''not found''),
      web_apps_list_slots =
        (\<lambda>rg name. (case map_of slots name of Some ns \<Rightarrow> ns | None \<Rightarrow> [], None)),
      web_apps_get_configuration_slot =
        (\<lambda>rg name slot. case map_of slot_configs (name, slot) of
                           Some c \<Rightarrow> Inr c | None \<Rightarrow> Inl ''not found''),
      list_tag_properties =
        (\<lambda>st r. Inr (map snd (filter (\<lambda>p. fst p = r) (reg_tags st)))),
      delete_tag =
        (\<lambda>st r t. if (r, t) \<in> set failing
                   then (Inl ''denied'', st\<lparr>reg_calls := reg_calls st @ [(r, t)]\<rparr>)
                   else (Inr (), st\<lparr>reg_tags := removeAll (r, t) (reg_tags st),
                                      reg_calls := reg_calls st @ [(r, t)]\<rparr>)),
      list_manifest_properties =
        (\<lambda>st r. Inr (map snd (filter (\<lambda>p. fst p = r) (reg_manifests st)))),
      delete_manifest =
        (\<lambda>st r d. (Inr (), st\<lparr>reg_manifests :=
                                   filter (\<lambda>p. \<not> (fst p = r \<and> digest (snd p) = d))
                                     (reg_manifests st)\<rparr>))\<rparr>"

text \<open>
  The scenario of the specification: web app \<open>app-a\<close> runs \<open>myrepo:v1\<close>, its slot
  \<open>staging\<close> runs \<open>myrepo:v2\<close>, and the registry holds \<open>v1\<close>, \<open>v2\<close> and \<open>v3\<close> of
  \<open>myrepo\<close> and a manifest without tags.
\<close>

definition example_azure :: "reg azure" where
  "example_azure =
     fake_azure
       [(''app-a'', \<lparr>linux_fx_version = Some ''DOCKER|myrepo:v1'', windows_fx_version = None\<rparr>)]
       [(''app-a'', [''app-a/staging''])]
       [((''app-a'', ''staging''),
         \<lparr>linux_fx_version = Some ''DOCKER|myrepo:v2'', windows_fx_version = None\<rparr>)]
       []"

definition example_registry :: reg where
  "example_registry =
     \<lparr>reg_tags = [(''myrepo'', ''v1''), (''myrepo'', ''v2''), (''myrepo'', ''v3'')],
      reg_manifests =
        [(''myrepo'', \<lparr>digest = ''sha256:aa'', manifest_tags = Some [''v1'']\<rparr>),
         (''myrepo'', \<lparr>digest = ''sha256:bb'', manifest_tags = Some []\<rparr>)],
      reg_calls = []\<rparr>"

text \<open>A provider that refuses to delete \<open>myrepo:v1\<close>, and a registry of two repositories.\<close>

definition failing_azure :: "reg azure" where
  "failing_azure = fake_azure [] [] [] [(''myrepo'', ''v1'')]"

definition small_registry :: reg where
  "small_registry =
     \<lparr>reg_tags = [(''myrepo'', ''v1''), (''myrepo'', ''v2''), (''other'', ''x'')],
      reg_manifests = [], reg_calls = []\<rparr>"

definition small_unused :: "(string \<times> string list) list" where
  "small_unused = [(''myrepo'', [''v1'', ''v2'']), (''other'', [''x''])]"

text \<open>A registry in which every tag is in use, with a manifest that has no tag.\<close>

definition clean_registry :: reg where
  "clean_registry =
     \<lparr>reg_tags = [(''myrepo'', ''v1''), (''myrepo'', ''v2'')],
      reg_manifests =
        [(''myrepo'', \<lparr>digest = ''sha256:aa'', manifest_tags = Some [''v1'']\<rparr>),
         (''myrepo'', \<lparr>digest = ''sha256:bb'', manifest_tags = Some []\<rparr>)],
      reg_calls = []\<rparr>"

text \<open>A dry run with the cleanup pass requested, its environment, and a file system that
  holds one configuration file.\<close>

definition example_args :: args where
  "example_args =
     \<lparr>arg_subscription_id = ''sub'', arg_resource_group = ''rg'', arg_registry_name = ''reg'',
      arg_config_path = ''reaper/webapp.json'', arg_dry_run = True, arg_execute = False,
      arg_cleanup_manifests = True\<rparr>"

definition example_environ :: "string \<Rightarrow> string option" where
  "example_environ =
     map_of [(''AZURE_TENANT_ID'', ''t''), (''AZURE_CLIENT_ID'', ''c''),
             (''AZURE_CLIENT_SECRET'', ''s'')]"

definition example_fs :: "json \<Rightarrow> filesystem" where
  "example_fs config = (\<lambda>path. if path = ''reaper/webapp.json'' then Some (Inr config) else None)"

definition example_config :: json where
  "example_config = JObject [(''webApps'', JArray [JString ''app-a''])]"

section \<open>Properties of the locator parser\<close>





lemma match_repo_tag_no_colon: "colon \<notin> set r \<Longrightarrow> match_repo_tag r = None"
proof -
  assume "colon \<notin> set r"
  then have "dropWhile (\<lambda>c. c \<noteq> colon) r = []" by (auto simp: dropWhile_eq_Nil_conv)
  then show ?thesis by (simp add: match_repo_tag_def Let_def)
qed
























lemmas extract_eval = extract_web_apps_images_def locator_match_def match_repo_tag_def
  host_suffix_def colon_def newline_def







lemma no_marker_inside:
  "\<not> sublist docker_marker a \<Longrightarrow> a \<noteq> [] \<Longrightarrow> \<not> prefix docker_marker (a @ docker_marker @ b)"
proof
  assume ns: "\<not> sublist docker_marker a" and ne: "a \<noteq> []"
    and p: "prefix docker_marker (a @ docker_marker @ b)"
  from p consider "prefix docker_marker a"
    | us where "docker_marker = a @ us" "prefix us (docker_marker @ b)"
    by (auto simp: prefix_append)
  then show False
  proof cases
    case 1
    then show ?thesis using ns by (auto dest: prefix_imp_sublist)
  next
    case 2
    have "us \<noteq> []" using 2(1) ns by auto
    with 2 ne show ?thesis
      by (auto simp: docker_marker_def Cons_eq_append_conv)
  qed
qed

lemma replace_scan_skip:
  "\<not> sublist docker_marker a \<Longrightarrow>
   replace_scan docker_marker [] (a @ docker_marker @ b) = a @ replace_scan docker_marker [] b"
proof (induction a)
  case Nil
  have "docker_marker \<noteq> []" by (simp add: docker_marker_def)
  then show ?case by (subst replace_scan.simps) simp
next
  case (Cons c a)
  have "\<not> prefix docker_marker ((c # a) @ docker_marker @ b)"
    using Cons.prems by (intro no_marker_inside) auto
  moreover have "\<not> sublist docker_marker a" using Cons.prems by (auto simp: sublist_Cons_right)
  ultimately show ?case using Cons.IH by (subst replace_scan.simps) simp
qed

text \<open>
  Claim C10. Take a descriptor that starts with the marker and holds it again later, after
  a text \<open>a\<close> in which it does not occur. The locator given to the parser is \<open>a\<close>
  followed by the rest with its markers replaced too: the second occurrence is removed like
  the first, and so is every later one.
\<close>

theorem collect_strips_every_marker:
  assumes "\<not> sublist docker_marker a"
  shows "collect_fx_version (Some (docker_marker @ a @ docker_marker @ b)) (images, repositories) =
     (case extract_web_apps_images (a @ str_replace docker_marker [] b) of
        Some e \<Rightarrow> (List.insert (full_image_name e) images, List.insert (repository e) repositories)
      | None \<Rightarrow> (images, repositories))"
proof -
  have ne: "docker_marker \<noteq> []" by (simp add: docker_marker_def)
  have "str_replace docker_marker [] (docker_marker @ a @ docker_marker @ b) =
        replace_scan docker_marker [] ([] @ docker_marker @ a @ docker_marker @ b)"
    using ne by (simp add: str_replace_def)
  also have "\<dots> = replace_scan docker_marker [] (a @ docker_marker @ b)"
    using ne by (subst replace_scan_skip) simp_all
  also have "\<dots> = a @ str_replace docker_marker [] b"
    using ne assms by (simp add: replace_scan_skip str_replace_def)
  finally show ?thesis using ne by (simp add: collect_fx_version_def)
qed

theorem collect_strips_every_marker_witness:
  "\<not> sublist docker_marker ''repo:''
   \<and> collect_fx_version (Some ''DOCKER|repo:DOCKER|tag'') ([], []) = ([''repo:tag''], [''repo''])"
proof -
  have h: "\<not> sublist docker_marker ''repo:''"
    by (simp add: docker_marker_def sublist_Cons_right)
  have r: "str_replace docker_marker [] ''tag'' = ''tag''"
    by (simp add: docker_marker_def str_replace_def replace_scan.simps)
  have e: "extract_web_apps_images ''repo:tag'' =
       Some \<lparr>repository = ''repo'', tag = ''tag'', full_image_name = ''repo:tag''\<rparr>"
    by (simp add: extract_eval)
  have "collect_fx_version (Some (docker_marker @ ''repo:'' @ docker_marker @ ''tag'')) ([], []) =
        ([''repo:tag''], [''repo''])"
    unfolding collect_strips_every_marker [OF h, of "''tag''" "[]" "[]"] r by (simp add: e)
  then show ?thesis using h by (simp add: docker_marker_def)
qed

section \<open>Properties of the identifier\<close>

lemma classify_tags_fst:
  "fst (classify_tags P R ts (u, p)) = u @ filter (\<lambda>t. R @ '':'' @ t \<notin> set P) ts"
  by (induction ts arbitrary: u p) auto

lemma identify_loop_lookup:
  "map_of (identify_loop az st P repos acc) R =
     (if R \<in> set repos \<and> filter (\<lambda>t. R @ '':'' @ t \<notin> set P) (get_acr_repository_tags az st R) \<noteq> []
      then Some (filter (\<lambda>t. R @ '':'' @ t \<notin> set P) (get_acr_repository_tags az st R))
      else map_of acc R)"
proof (induction repos arbitrary: acc)
  case Nil
  then show ?case by simp
next
  case (Cons r repos)
  show ?case
    by (simp add: Cons.IH Let_def classify_tags_fst update_conv' del: append.simps)
qed

lemma identify_loop_distinct:
  "distinct (map fst acc) \<Longrightarrow> distinct (map fst (identify_loop az st P repos acc))"
  by (induction repos arbitrary: acc) (simp_all add: Let_def distinct_update)

text \<open>
  Claim C1. The entry of a repository \<open>R\<close> in the result of \<^verbatim>\<open>identify_unused_images\<close> is
  the list of the tags of \<open>R\<close>, in the order the registry lists them, whose name
  \<open>R:t\<close> is not a protected image; \<open>R\<close> is a key exactly when it is one of the given
  repositories and that list is not empty. A repository whose tags are all protected, or
  that has no tags (also when listing them fails), is not a key. No key occurs twice.
\<close>

theorem identify_is_set_difference:
  "map_of (identify_unused_images az st repositories protected_images) R =
     (if R \<in> set repositories
         \<and> filter (\<lambda>t. R @ '':'' @ t \<notin> set protected_images) (get_acr_repository_tags az st R) \<noteq> []
      then Some (filter (\<lambda>t. R @ '':'' @ t \<notin> set protected_images)
                   (get_acr_repository_tags az st R))
      else None)
   \<and> distinct (map fst (identify_unused_images az st repositories protected_images))"
  by (simp add: identify_unused_images_def identify_loop_lookup identify_loop_distinct
      del: append.simps)

theorem identify_is_set_difference_witness:
  "map_of (identify_unused_images example_azure example_registry [''myrepo'']
             [''myrepo:v1'', ''myrepo:v2'']) ''myrepo'' = Some [''v3'']
   \<and> map_of (identify_unused_images example_azure example_registry [''myrepo'']
             [''myrepo:v1'', ''myrepo:v2'', ''myrepo:v3'']) ''myrepo'' = None"
proof -
  have t: "get_acr_repository_tags example_azure example_registry ''myrepo'' =
        [''v1'', ''v2'', ''v3'']"
    by (simp add: get_acr_repository_tags_def example_azure_def example_registry_def
        fake_azure_def)
  show ?thesis
    using identify_is_set_difference [of example_azure example_registry "[''myrepo'']"
        "[''myrepo:v1'', ''myrepo:v2'']" "''myrepo''"]
      identify_is_set_difference [of example_azure example_registry "[''myrepo'']"
        "[''myrepo:v1'', ''myrepo:v2'', ''myrepo:v3'']" "''myrepo''"]
    by (simp add: t)
qed

section \<open>Properties of the deletion\<close>

lemma map_entry_twice:
  "AList.map_entry k f (AList.map_entry k g xs) = AList.map_entry k (\<lambda>v. f (g v)) xs"
  by (induction xs) auto

lemma map_entry_update:
  "AList.map_entry k f (AList.update k v xs) = AList.update k (f v) xs"
  by (induction xs) auto

lemma delete_tags_entry:
  "delete_tags az dry_run repo ts (res, st) =
     (AList.map_entry repo (tally az dry_run repo ts st) res, after_tags az dry_run repo ts st)"
proof (induction ts arbitrary: res st)
  case Nil
  have "AList.map_entry repo (\<lambda>r. r) res = res" by (induction res) auto
  then show ?case by simp
next
  case (Cons t ts)
  show ?case
  proof (cases "delete_tag az st repo t")
    case (Pair r st')
    then show ?thesis
      using Cons.IH by (cases r; cases dry_run) (simp_all add: map_entry_twice)
  qed
qed

lemma delete_loop_fold: "delete_loop az dry_run unused acc = delete_fold az dry_run unused acc"
proof (induction unused arbitrary: acc)
  case Nil
  then show ?case by simp
next
  case (Cons p unused)
  obtain repo tags where p: "p = (repo, tags)" by (cases p)
  obtain res st where acc: "acc = (res, st)" by (cases acc)
  show ?case by (simp add: p acc Cons.IH delete_tags_entry map_entry_update)
qed


lemma delete_unused_images_fold:
  "delete_unused_images az st unused dry_run = delete_fold az dry_run unused ([], st)"
  by (simp add: delete_unused_images_def delete_loop_fold)

lemma update_member:
  "(k', v') \<in> set (AList.update k v al) \<Longrightarrow> (k', v') = (k, v) \<or> (k', v') \<in> set al"
  by (induction al) (auto split: if_splits)

lemma update_fresh: "k \<notin> fst ` set al \<Longrightarrow> AList.update k v al = al @ [(k, v)]"
  by (induction al) auto

lemma delete_fold_all:
  assumes "\<And>repo tags s. P (tally az dry_run repo tags s
             \<lparr>attempted = int (length tags), successful = 0, failed = 0, errors = []\<rparr>)"
    and "\<And>k v. (k, v) \<in> set res \<Longrightarrow> P v"
    and "(k, v) \<in> set (fst (delete_fold az dry_run unused (res, st)))"
  shows "P v"
  using assms(2,3)
proof (induction unused arbitrary: res st)
  case Nil
  then show ?case by simp
next
  case (Cons p unused)
  obtain repo tags where p: "p = (repo, tags)" by (cases p)
  show ?case
  proof (rule Cons.IH)
    show "(k, v) \<in> set (fst (delete_fold az dry_run unused
        (AList.update repo (tally az dry_run repo tags st
             \<lparr>attempted = int (length tags), successful = 0, failed = 0, errors = []\<rparr>) res,
         after_tags az dry_run repo tags st)))"
      using Cons.prems(2) by (simp add: p)
  next
    fix k' v'
    assume "(k', v') \<in> set (AList.update repo (tally az dry_run repo tags st
             \<lparr>attempted = int (length tags), successful = 0, failed = 0, errors = []\<rparr>) res)"
    from update_member[OF this] show "P v'" using assms(1) Cons.prems(1) by auto
  qed
qed

lemma delete_fold_keys:
  "fst ` set (fst (delete_fold az dry_run unused (res, st))) = fst ` set res \<union> fst ` set unused"
proof (induction unused arbitrary: res st)
  case Nil
  then show ?case by simp
next
  case (Cons p unused)
  obtain repo tags where p: "p = (repo, tags)" by (cases p)
  show ?case by (auto simp: p Cons.IH dom_update)
qed

lemma tally_dry:
  "tally az True repo ts st r = r\<lparr>successful := successful r + int (length ts)\<rparr>"
  by (induction ts arbitrary: r) simp_all

lemma after_tags_dry: "after_tags az True repo ts st = st"
  by (induction ts) simp_all

lemma delete_fold_dry:
  "delete_fold az True unused (res, st) =
     (fold (\<lambda>(repo, tags). AList.update repo
              \<lparr>attempted = int (length tags), successful = int (length tags), failed = 0,
                errors = []\<rparr>) unused res, st)"
proof (induction unused arbitrary: res)
  case Nil
  then show ?case by simp
next
  case (Cons p unused)
  obtain repo tags where p: "p = (repo, tags)" by (cases p)
  show ?case by (simp add: p Cons.IH tally_dry after_tags_dry)
qed

lemma tally_attempted: "attempted (tally az dry_run repo ts st r) = attempted r"
proof (induction ts arbitrary: st r)
  case Nil
  then show ?case by simp
next
  case (Cons t ts)
  show ?case
  proof (cases "delete_tag az st repo t")
    case (Pair res st')
    then show ?thesis using Cons.IH by (cases res; cases dry_run) simp_all
  qed
qed

lemma tally_total:
  "successful (tally az dry_run repo ts st r) + failed (tally az dry_run repo ts st r) =
     successful r + failed r + int (length ts)"
proof (induction ts arbitrary: st r)
  case Nil
  then show ?case by simp
next
  case (Cons t ts)
  show ?case
  proof (cases "delete_tag az st repo t")
    case (Pair res st')
    then show ?thesis using Cons.IH by (cases res; cases dry_run) simp_all
  qed
qed

lemma tally_errors:
  "int (length (errors (tally az dry_run repo ts st r))) - failed (tally az dry_run repo ts st r) =
     int (length (errors r)) - failed r"
proof (induction ts arbitrary: st r)
  case Nil
  then show ?case by simp
next
  case (Cons t ts)
  show ?case
  proof (cases "delete_tag az st repo t")
    case (Pair res st')
    then show ?thesis using Cons.IH by (cases res; cases dry_run) simp_all
  qed
qed

lemma tally_counts:
  "attempted (tally az dry_run repo ts st
      \<lparr>attempted = int (length ts), successful = 0, failed = 0, errors = []\<rparr>) =
     successful (tally az dry_run repo ts st
      \<lparr>attempted = int (length ts), successful = 0, failed = 0, errors = []\<rparr>) +
     failed (tally az dry_run repo ts st
      \<lparr>attempted = int (length ts), successful = 0, failed = 0, errors = []\<rparr>)
   \<and> failed (tally az dry_run repo ts st
      \<lparr>attempted = int (length ts), successful = 0, failed = 0, errors = []\<rparr>) =
     int (length (errors (tally az dry_run repo ts st
      \<lparr>attempted = int (length ts), successful = 0, failed = 0, errors = []\<rparr>)))"
  using tally_errors [of az dry_run repo ts st
      "\<lparr>attempted = int (length ts), successful = 0, failed = 0, errors = []\<rparr>"]
    tally_total [of az dry_run repo ts st
      "\<lparr>attempted = int (length ts), successful = 0, failed = 0, errors = []\<rparr>"]
  by (simp add: tally_attempted)

lemma fold_update_fresh:
  "distinct (map fst xs) \<Longrightarrow> fst ` set xs \<inter> fst ` set res = {} \<Longrightarrow>
   fold (\<lambda>(k, v). AList.update k (g k v)) xs res = res @ map (\<lambda>(k, v). (k, g k v)) xs"
proof (induction xs arbitrary: res)
  case Nil
  then show ?case by simp
next
  case (Cons p xs)
  obtain k v where p: "p = (k, v)" by (cases p)
  from Cons.prems have fresh: "k \<notin> fst ` set res" by (auto simp: p)
  have "distinct (map fst xs)" using Cons.prems by simp
  moreover have "fst ` set xs \<inter> fst ` set (res @ [(k, g k v)]) = {}"
    using Cons.prems by (auto simp: p)
  ultimately have "fold (\<lambda>(k, v). AList.update k (g k v)) xs (res @ [(k, g k v)]) =
      (res @ [(k, g k v)]) @ map (\<lambda>(k, v). (k, g k v)) xs" by (rule Cons.IH)
  then show ?case by (simp add: p update_fresh[OF fresh])
qed

lemma after_tags_execute:
  "after_tags az False repo ts st = foldl (\<lambda>s t. snd (delete_tag az s repo t)) st ts"
  by (induction ts arbitrary: st) simp_all

lemma delete_fold_state:
  "snd (delete_fold az False unused (res, st)) =
     foldl (\<lambda>s (r, t). snd (delete_tag az s r t)) st
       (concat (map (\<lambda>(r, ts). map (Pair r) ts) unused))"
proof (induction unused arbitrary: res st)
  case Nil
  then show ?case by simp
next
  case (Cons p unused)
  obtain repo tags where p: "p = (repo, tags)" by (cases p)
  show ?case by (simp add: p Cons.IH after_tags_execute foldl_map)
qed

lemma tally_fails:
  assumes "\<And>s t. fst (delete_tag az s repo t) =
             (case fails repo t of Some e \<Rightarrow> Inl e | None \<Rightarrow> Inr ())"
  shows "tally az False repo ts st r =
     r\<lparr>successful := successful r + int (length (filter (\<lambda>t. fails repo t = None) ts)),
       failed := failed r + int (length (filter (\<lambda>t. fails repo t \<noteq> None) ts)),
       errors := errors r @
         List.map_filter
           (\<lambda>t. map_option (\<lambda>e. ''Failed to delete '' @ repo @ '':'' @ t @ '': '' @ e)
                  (fails repo t)) ts\<rparr>"
proof (induction ts arbitrary: st r)
  case Nil
  then show ?case by (simp add: map_filter_simps)
next
  case (Cons t ts)
  obtain v st' where d: "delete_tag az st repo t = (v, st')" by (cases "delete_tag az st repo t")
  with assms[of st t] have v: "v = (case fails repo t of Some e \<Rightarrow> Inl e | None \<Rightarrow> Inr ())"
    by simp
  show ?case
    by (cases "fails repo t") (simp_all add: d v Cons.IH map_filter_simps del: append.simps)
qed


text \<open>
  Claim C3. In dry-run mode \<^verbatim>\<open>delete_unused_images\<close> leaves the registry as it was and
  its result does not depend on what \<^verbatim>\<open>delete_tag\<close> would do, so no deletion call is
  made; the result has an outcome for every repository of the input, and every outcome has
  \<open>successful = attempted\<close>, \<open>failed = 0\<close> and no errors. For an input with distinct keys
  (a dictionary) the result is the input with each tag list replaced by its length.
\<close>

theorem dry_run_deletes_nothing:
  "snd (delete_unused_images az st unused True) = st
   \<and> delete_unused_images (az\<lparr>delete_tag := d\<rparr>) st unused True =
       delete_unused_images az st unused True
   \<and> fst ` set (fst (delete_unused_images az st unused True)) = fst ` set unused
   \<and> (\<forall>(repo, res) \<in> set (fst (delete_unused_images az st unused True)).
         successful res = attempted res \<and> failed res = 0 \<and> errors res = [])
   \<and> (distinct (map fst unused) \<longrightarrow>
        fst (delete_unused_images az st unused True) =
          map (\<lambda>(repo, tags). (repo, \<lparr>attempted = int (length tags),
                 successful = int (length tags), failed = 0, errors = []\<rparr>)) unused)"
proof (intro conjI impI)
  show "snd (delete_unused_images az st unused True) = st"
    by (simp add: delete_unused_images_fold delete_fold_dry)
  show "delete_unused_images (az\<lparr>delete_tag := d\<rparr>) st unused True =
       delete_unused_images az st unused True"
    by (simp add: delete_unused_images_fold delete_fold_dry)
  show "fst ` set (fst (delete_unused_images az st unused True)) = fst ` set unused"
    by (simp add: delete_unused_images_fold delete_fold_keys)
  show "\<forall>(repo, res) \<in> set (fst (delete_unused_images az st unused True)).
         successful res = attempted res \<and> failed res = 0 \<and> errors res = []"
  proof (clarify)
    fix repo res
    assume m: "(repo, res) \<in> set (fst (delete_unused_images az st unused True))"
    show "successful res = attempted res \<and> failed res = 0 \<and> errors res = []"
    proof (rule delete_fold_all
        [where P = "\<lambda>res. successful res = attempted res \<and> failed res = 0 \<and> errors res = []"])
      show "(repo, res) \<in> set (fst (delete_fold az True unused ([], st)))"
        using m by (simp add: delete_unused_images_fold)
    qed (simp_all add: tally_dry)
  qed
next
  assume "distinct (map fst unused)"
  then have "fold (\<lambda>(repo, tags). AList.update repo
              \<lparr>attempted = int (length tags), successful = int (length tags), failed = 0,
                errors = []\<rparr>) unused [] =
        [] @ map (\<lambda>(repo, tags). (repo, \<lparr>attempted = int (length tags),
                 successful = int (length tags), failed = 0, errors = []\<rparr>)) unused"
    by (intro fold_update_fresh) simp_all
  then show "fst (delete_unused_images az st unused True) =
          map (\<lambda>(repo, tags). (repo, \<lparr>attempted = int (length tags),
                 successful = int (length tags), failed = 0, errors = []\<rparr>)) unused"
    by (simp add: delete_unused_images_fold delete_fold_dry)
qed

theorem dry_run_deletes_nothing_witness:
  "distinct (map fst small_unused)
   \<and> delete_unused_images failing_azure small_registry small_unused True =
     ([(''myrepo'', \<lparr>attempted = 2, successful = 2, failed = 0, errors = []\<rparr>),
       (''other'', \<lparr>attempted = 1, successful = 1, failed = 0, errors = []\<rparr>)],
      small_registry)"
proof -
  have d: "distinct (map fst small_unused)" by (simp add: small_unused_def)
  from dry_run_deletes_nothing [of failing_azure small_registry small_unused] d
  have "snd (delete_unused_images failing_azure small_registry small_unused True) = small_registry"
    and "fst (delete_unused_images failing_azure small_registry small_unused True) =
          map (\<lambda>(repo, tags). (repo, \<lparr>attempted = int (length tags),
                 successful = int (length tags), failed = 0, errors = []\<rparr>)) small_unused"
    by blast+
  then show ?thesis using d by (simp add: prod_eq_iff small_unused_def)
qed

text \<open>
  Claim C4. In either mode and for every provider, every outcome returned by
  \<^verbatim>\<open>delete_unused_images\<close> has \<open>attempted = successful + failed\<close> and
  \<open>failed = len(errors)\<close>.
\<close>

theorem outcome_counts_add_up:
  "\<forall>(repo, res) \<in> set (fst (delete_unused_images az st unused dry_run)).
     attempted res = successful res + failed res \<and> failed res = int (length (errors res))"
proof (clarify)
  fix repo res
  assume m: "(repo, res) \<in> set (fst (delete_unused_images az st unused dry_run))"
  show "attempted res = successful res + failed res \<and> failed res = int (length (errors res))"
  proof (rule delete_fold_all
      [where P = "\<lambda>res. attempted res = successful res + failed res
                        \<and> failed res = int (length (errors res))"])
    show "(repo, res) \<in> set (fst (delete_fold az dry_run unused ([], st)))"
      using m by (simp add: delete_unused_images_fold)
  next
    fix repo tags s
    show "attempted (tally az dry_run repo tags s
             \<lparr>attempted = int (length tags), successful = 0, failed = 0, errors = []\<rparr>) =
          successful (tally az dry_run repo tags s
             \<lparr>attempted = int (length tags), successful = 0, failed = 0, errors = []\<rparr>) +
          failed (tally az dry_run repo tags s
             \<lparr>attempted = int (length tags), successful = 0, failed = 0, errors = []\<rparr>)
        \<and> failed (tally az dry_run repo tags s
             \<lparr>attempted = int (length tags), successful = 0, failed = 0, errors = []\<rparr>) =
          int (length (errors (tally az dry_run repo tags s
             \<lparr>attempted = int (length tags), successful = 0, failed = 0, errors = []\<rparr>)))"
      by (rule tally_counts)
  qed simp
qed

lemma small_execute:
  "delete_unused_images failing_azure small_registry small_unused False =
     ([(''myrepo'', \<lparr>attempted = 2, successful = 1, failed = 1,
                     errors = [''Failed to delete myrepo:v1: denied'']\<rparr>),
       (''other'', \<lparr>attempted = 1, successful = 1, failed = 0, errors = []\<rparr>)],
      \<lparr>reg_tags = [(''myrepo'', ''v1'')], reg_manifests = [],
       reg_calls = [(''myrepo'', ''v1''), (''myrepo'', ''v2''), (''other'', ''x'')]\<rparr>)"
  by (simp add: delete_unused_images_def small_unused_def failing_azure_def fake_azure_def
      small_registry_def)

theorem outcome_counts_add_up_witness:
  "(''myrepo'', \<lparr>attempted = 2, successful = 1, failed = 1,
                  errors = [''Failed to delete myrepo:v1: denied'']\<rparr>)
     \<in> set (fst (delete_unused_images failing_azure small_registry small_unused False))
   \<and> attempted \<lparr>attempted = 2, successful = 1, failed = 1,
                  errors = [''Failed to delete myrepo:v1: denied'']\<rparr> =
       successful \<lparr>attempted = 2, successful = 1, failed = 1,
                  errors = [''Failed to delete myrepo:v1: denied'']\<rparr> +
       failed \<lparr>attempted = 2, successful = 1, failed = 1,
                  errors = [''Failed to delete myrepo:v1: denied'']\<rparr>
   \<and> failed \<lparr>attempted = 2, successful = 1, failed = 1,
                  errors = [''Failed to delete myrepo:v1: denied'']\<rparr> =
       int (length (errors \<lparr>attempted = 2, successful = 1, failed = 1,
                  errors = [''Failed to delete myrepo:v1: denied'']\<rparr>))"
proof -
  have m: "(''myrepo'', \<lparr>attempted = 2, successful = 1, failed = 1,
                  errors = [''Failed to delete myrepo:v1: denied'']\<rparr>)
     \<in> set (fst (delete_unused_images failing_azure small_registry small_unused False))"
    by (simp add: small_execute)
  from outcome_counts_add_up [of failing_azure small_registry small_unused False] m
  show ?thesis by blast
qed

text \<open>
  Claim C5. In execute mode, with a provider whose \<^verbatim>\<open>delete_tag\<close> raises exactly on the
  tags for which \<open>fails\<close> gives a message (one tag, or any number), the deletion call is
  issued for every tag of every repository, in order, whatever failed before; each
  repository's outcome counts all its tags as attempted, the failing ones as failed with one
  error text each (\<open>Failed to delete R:t: message\<close>), and the others as successful.
\<close>

theorem failed_tag_does_not_stop_the_rest:
  assumes "distinct (map fst unused)"
    and "\<forall>s repo t. fst (delete_tag az s repo t) =
           (case fails repo t of Some e \<Rightarrow> Inl e | None \<Rightarrow> Inr ())"
  shows "delete_unused_images az st unused False =
     (map (\<lambda>(repo, tags).
        (repo,
         \<lparr>attempted = int (length tags),
          successful = int (length (filter (\<lambda>t. fails repo t = None) tags)),
          failed = int (length (filter (\<lambda>t. fails repo t \<noteq> None) tags)),
          errors = List.map_filter
            (\<lambda>t. map_option (\<lambda>e. ''Failed to delete '' @ repo @ '':'' @ t @ '': '' @ e)
                   (fails repo t)) tags\<rparr>)) unused,
      foldl (\<lambda>s (repo, t). snd (delete_tag az s repo t)) st
        (concat (map (\<lambda>(repo, tags). map (Pair repo) tags) unused)))"
proof -
  let ?final = "\<lambda>repo tags. \<lparr>attempted = int (length tags),
          successful = int (length (filter (\<lambda>t. fails repo t = None) tags)),
          failed = int (length (filter (\<lambda>t. fails repo t \<noteq> None) tags)),
          errors = List.map_filter
            (\<lambda>t. map_option (\<lambda>e. ''Failed to delete '' @ repo @ '':'' @ t @ '': '' @ e)
                   (fails repo t)) tags\<rparr>"
  have t: "tally az False repo tags s
             \<lparr>attempted = int (length tags), successful = 0, failed = 0, errors = []\<rparr> =
           ?final repo tags" for repo tags s
    using assms(2) by (subst tally_fails[where fails = fails]) simp_all
  have f: "fst (delete_fold az False xs (res, s)) =
           fold (\<lambda>(repo, tags). AList.update repo (?final repo tags)) xs res" for xs res s
  proof (induction xs arbitrary: res s)
    case Nil
    then show ?case by simp
  next
    case (Cons p xs)
    obtain repo tags where p: "p = (repo, tags)" by (cases p)
    show ?case by (simp add: p Cons.IH t del: append.simps)
  qed
  have "fold (\<lambda>(repo, tags). AList.update repo (?final repo tags)) unused [] =
        [] @ map (\<lambda>(repo, tags). (repo, ?final repo tags)) unused"
    using assms(1) by (intro fold_update_fresh) simp_all
  then have "fst (delete_unused_images az st unused False) =
        map (\<lambda>(repo, tags). (repo, ?final repo tags)) unused"
    by (simp add: delete_unused_images_fold f)
  moreover have "snd (delete_unused_images az st unused False) =
      foldl (\<lambda>s (repo, t). snd (delete_tag az s repo t)) st
        (concat (map (\<lambda>(repo, tags). map (Pair repo) tags) unused))"
    by (simp add: delete_unused_images_fold delete_fold_state)
  ultimately show ?thesis by (simp add: prod_eq_iff)
qed

theorem failed_tag_does_not_stop_the_rest_witness:
  "distinct (map fst small_unused)
   \<and> delete_unused_images failing_azure small_registry small_unused False =
     ([(''myrepo'', \<lparr>attempted = 2, successful = 1, failed = 1,
                     errors = [''Failed to delete myrepo:v1: denied'']\<rparr>),
       (''other'', \<lparr>attempted = 1, successful = 1, failed = 0, errors = []\<rparr>)],
      \<lparr>reg_tags = [(''myrepo'', ''v1'')], reg_manifests = [],
       reg_calls = [(''myrepo'', ''v1''), (''myrepo'', ''v2''), (''other'', ''x'')]\<rparr>)"
proof -
  have d: "distinct (map fst small_unused)" by (simp add: small_unused_def)
  have h: "\<forall>s repo t. fst (delete_tag failing_azure s repo t) =
           (case (if (repo, t) = (''myrepo'', ''v1'') then Some ''denied'' else None) of
              Some e \<Rightarrow> Inl e | None \<Rightarrow> Inr ())"
    by (simp add: failing_azure_def fake_azure_def)
  show ?thesis
    unfolding failed_tag_does_not_stop_the_rest [OF d h, of small_registry]
    using d
    by (simp add: small_unused_def map_filter_simps failing_azure_def fake_azure_def
        small_registry_def)
qed

section \<open>Properties of the summary\<close>

text \<open>
  Claim C8. The repositories that \<^verbatim>\<open>print_summary\<close> lists as having no unused images are
  the discovered repositories that are not keys of the deletion outcomes; that list and the
  list of protected images are sorted (lexicographically) and without repetition, and the
  protected list holds exactly the protected images; the three totals are the sums of the
  fields over the outcomes.
\<close>

theorem summary_reconciles:
  "set (repos_with_no_unused (print_summary deletion_results protected_images repositories_cleaned)) =
     set repositories_cleaned - fst ` set deletion_results
   \<and> sorted (repos_with_no_unused
        (print_summary deletion_results protected_images repositories_cleaned))
   \<and> distinct (repos_with_no_unused
        (print_summary deletion_results protected_images repositories_cleaned))
   \<and> set (protected_listed (print_summary deletion_results protected_images repositories_cleaned)) =
     set protected_images
   \<and> sorted (protected_listed
        (print_summary deletion_results protected_images repositories_cleaned))
   \<and> distinct (protected_listed
        (print_summary deletion_results protected_images repositories_cleaned))
   \<and> total_attempted (print_summary deletion_results protected_images repositories_cleaned) =
     sum_list (map (attempted \<circ> snd) deletion_results)
   \<and> total_successful (print_summary deletion_results protected_images repositories_cleaned) =
     sum_list (map (successful \<circ> snd) deletion_results)
   \<and> total_failed (print_summary deletion_results protected_images repositories_cleaned) =
     sum_list (map (failed \<circ> snd) deletion_results)"
proof -
  have c: "(\<lambda>(k, result). f result) = f \<circ> snd" for f :: "outcome \<Rightarrow> int"
    by (auto simp: fun_eq_iff)
  show ?thesis by (simp add: print_summary_def c)
qed

theorem summary_reconciles_witness:
  "repos_with_no_unused
     (print_summary
        [(''myrepo'', \<lparr>attempted = 2, successful = 1, failed = 1,
                        errors = [''Failed to delete myrepo:v1: denied'']\<rparr>),
         (''other'', \<lparr>attempted = 1, successful = 1, failed = 0, errors = []\<rparr>)]
        [''myrepo:v2'', ''myrepo:v1''] [''zeta'', ''myrepo'', ''alpha'', ''other'']) =
     [''alpha'', ''zeta'']
   \<and> protected_listed
     (print_summary
        [(''myrepo'', \<lparr>attempted = 2, successful = 1, failed = 1,
                        errors = [''Failed to delete myrepo:v1: denied'']\<rparr>),
         (''other'', \<lparr>attempted = 1, successful = 1, failed = 0, errors = []\<rparr>)]
        [''myrepo:v2'', ''myrepo:v1''] [''zeta'', ''myrepo'', ''alpha'', ''other'']) =
     [''myrepo:v1'', ''myrepo:v2'']
   \<and> total_attempted
     (print_summary
        [(''myrepo'', \<lparr>attempted = 2, successful = 1, failed = 1,
                        errors = [''Failed to delete myrepo:v1: denied'']\<rparr>),
         (''other'', \<lparr>attempted = 1, successful = 1, failed = 0, errors = []\<rparr>)]
        [''myrepo:v2'', ''myrepo:v1''] [''zeta'', ''myrepo'', ''alpha'', ''other'']) = 3"
proof -
  let ?res = "[(''myrepo'', \<lparr>attempted = 2, successful = 1, failed = 1,
                        errors = [''Failed to delete myrepo:v1: denied'']\<rparr>),
         (''other'', \<lparr>attempted = 1, successful = 1, failed = 0, errors = []\<rparr>)]"
  have a: "sorted_list_of_set (set [''zeta'', ''myrepo'', ''alpha'', ''other'']
             - set [''myrepo'', ''other'']) = [''alpha'', ''zeta'']"
    by code_simp
  have b: "sorted_list_of_set (set [''myrepo:v2'', ''myrepo:v1'']) = [''myrepo:v1'', ''myrepo:v2'']"
    by code_simp
  from summary_reconciles [of ?res "[''myrepo:v2'', ''myrepo:v1'']"
      "[''zeta'', ''myrepo'', ''alpha'', ''other'']"]
  have "total_attempted (print_summary ?res [''myrepo:v2'', ''myrepo:v1'']
          [''zeta'', ''myrepo'', ''alpha'', ''other'']) = 3"
    by simp
  moreover have "repos_with_no_unused (print_summary ?res [''myrepo:v2'', ''myrepo:v1'']
          [''zeta'', ''myrepo'', ''alpha'', ''other'']) = [''alpha'', ''zeta'']"
    unfolding print_summary_def using a by simp
  moreover have "protected_listed (print_summary ?res [''myrepo:v2'', ''myrepo:v1'']
          [''zeta'', ''myrepo'', ''alpha'', ''other'']) = [''myrepo:v1'', ''myrepo:v2'']"
    unfolding print_summary_def using b by simp
  ultimately show ?thesis by simp
qed

section \<open>Properties of the cleanup pass and of the run\<close>

lemma cleanup_repository_found_dry:
  "fst (cleanup_repository az True repo ms (found, st)) =
     found @ map (\<lambda>m. (repo, digest m)) (filter untagged ms)"
  by (induction ms arbitrary: found st) simp_all

lemma cleanup_repository_found_execute:
  "fst (cleanup_repository az False repo ms (found, st)) =
     found @ map (\<lambda>m. (repo, digest m)) (filter untagged ms)"
  by (induction ms arbitrary: found st) simp_all

lemma cleanup_repository_found:
  "fst (cleanup_repository az dry_run repo ms (found, st)) =
     found @ map (\<lambda>m. (repo, digest m)) (filter untagged ms)"
  by (cases dry_run) (simp_all add: cleanup_repository_found_dry cleanup_repository_found_execute)

lemma cleanup_repository_dry: "snd (cleanup_repository az True repo ms (found, st)) = st"
  by (induction ms arbitrary: found) simp_all

lemma cleanup_repository_listing:
  assumes "\<forall>s r d r'. r' \<noteq> r \<longrightarrow>
             list_manifest_properties az (snd (delete_manifest az s r d)) r' =
             list_manifest_properties az s r'"
    and "r' \<noteq> repo"
  shows "list_manifest_properties az (snd (cleanup_repository az False repo ms (found, st))) r' =
         list_manifest_properties az st r'"
  using assms by (induction ms arbitrary: found st) simp_all

lemma cleanup_loop_found:
  assumes "dry_run \<or> (\<forall>s r d r'. r' \<noteq> r \<longrightarrow>
             list_manifest_properties az (snd (delete_manifest az s r d)) r' =
             list_manifest_properties az s r')"
  shows "distinct repos \<Longrightarrow>
    (\<forall>r \<in> set repos. list_manifest_properties az st r = list_manifest_properties az st0 r) \<Longrightarrow>
    fst (cleanup_loop az dry_run repos (found, st)) =
      found @ concat (map (untagged_in az st0) repos)"
proof (induction repos arbitrary: found st)
  case Nil
  then show ?case by simp
next
  case (Cons repo repos)
  show ?case
  proof (cases "list_manifest_properties az st repo")
    case (Inl e)
    then have "list_manifest_properties az st0 repo = Inl e" using Cons.prems(2) by simp
    then have u: "untagged_in az st0 repo = []" by (simp add: untagged_in_def)
    show ?thesis using Inl Cons.prems by (simp add: Cons.IH u)
  next
    case (Inr ms)
    then have l0: "list_manifest_properties az st0 repo = Inr ms" using Cons.prems(2) by simp
    obtain found' st' where c: "cleanup_repository az dry_run repo ms (found, st) = (found', st')"
      by (cases "cleanup_repository az dry_run repo ms (found, st)")
    have f: "found' = found @ map (\<lambda>m. (repo, digest m)) (filter untagged ms)"
      using cleanup_repository_found[of az dry_run repo ms found st] by (simp add: c)
    have "\<forall>r \<in> set repos. list_manifest_properties az st' r = list_manifest_properties az st0 r"
    proof
      fix r assume r: "r \<in> set repos"
      then have ne: "r \<noteq> repo" using Cons.prems(1) by auto
      have "list_manifest_properties az st' r = list_manifest_properties az st r"
      proof (cases dry_run)
        case True
        then show ?thesis using cleanup_repository_dry[of az repo ms found st] c by simp
      next
        case False
        with assms have h: "\<forall>s r d r'. r' \<noteq> r \<longrightarrow>
             list_manifest_properties az (snd (delete_manifest az s r d)) r' =
             list_manifest_properties az s r'" by simp
        from cleanup_repository_listing[OF h ne, of ms found st] show ?thesis
          using False c by simp
      qed
      then show "list_manifest_properties az st' r = list_manifest_properties az st0 r"
        using Cons.prems(2) r by simp
    qed
    moreover have "distinct repos" using Cons.prems(1) by simp
    ultimately have "fst (cleanup_loop az dry_run repos (found', st')) =
        found' @ concat (map (untagged_in az st0) repos)" by (intro Cons.IH)
    moreover have "untagged_in az st0 repo = map (\<lambda>m. (repo, digest m)) (filter untagged ms)"
      by (simp add: untagged_in_def l0)
    ultimately show ?thesis by (simp add: Inr c f)
  qed
qed

lemma main_manifests_found:
  assumes "arg_subscription_id a \<noteq> []" "arg_resource_group a \<noteq> []" "arg_registry_name a \<noteq> []"
    "arg_config_path a \<noteq> []"
    and "reaper_init environ clients = Inr az"
    and "load_configs fs py_str (arg_config_path a) = Inr web_apps"
    and "get_all_web_apps_data az (arg_resource_group a) web_apps ([], []) = (protected, repos)"
  shows "manifests_found (main a environ clients fs py_str st) =
      (if arg_cleanup_manifests a \<and> web_apps \<noteq> [] \<and> repos \<noteq> []
          \<and> identify_unused_images az st repos protected \<noteq> []
       then Some (fst (cleanup_unused_manifests az
                    (snd (delete_unused_images az st
                            (identify_unused_images az st repos protected) (\<not> arg_execute a)))
                    repos (\<not> arg_execute a)))
       else None)"
  using assms
  by (simp add: main_def stopped_def Let_def split: prod.splits)

lemma main_exit_status:
  "exit_status (main a environ clients fs py_str st) =
     (if arg_subscription_id a = [] \<or> arg_resource_group a = [] \<or> arg_registry_name a = []
         \<or> arg_config_path a = [] then 2
      else if isl (reaper_init environ clients) \<or> isl (load_configs fs py_str (arg_config_path a))
      then 1 else 0)"
  by (simp add: main_def stopped_def Let_def split: prod.splits sum.splits)

lemma collect_fx_version_distinct:
  "distinct (fst acc) \<and> distinct (snd acc) \<Longrightarrow>
   distinct (fst (collect_fx_version fx acc)) \<and> distinct (snd (collect_fx_version fx acc))"
  by (cases acc) (simp add: collect_fx_version_def Let_def split: option.splits)

lemma collect_config_distinct:
  "distinct (fst acc) \<and> distinct (snd acc) \<Longrightarrow>
   distinct (fst (collect_config c acc)) \<and> distinct (snd (collect_config c acc))"
  unfolding collect_config_def by (intro collect_fx_version_distinct)

lemma collect_slots_distinct:
  "distinct (fst acc) \<and> distinct (snd acc) \<Longrightarrow>
   distinct (fst (collect_slots az rg app slots acc)) \<and>
   distinct (snd (collect_slots az rg app slots acc))"
proof (induction slots arbitrary: acc)
  case Nil
  then show ?case by simp
next
  case (Cons name slots)
  show ?case
    by (cases "web_apps_get_configuration_slot az rg app (last_segment name)")
       (simp_all add: Cons.IH Cons.prems collect_config_distinct)
qed

lemma get_webapps_slots_images_distinct:
  "distinct (fst (get_webapps_slots_images az rg app)) \<and>
   distinct (snd (get_webapps_slots_images az rg app))"
proof -
  have c: "distinct (fst (collect_config c ([], []))) \<and> distinct (snd (collect_config c ([], [])))"
    for c
    by (rule collect_config_distinct) simp
  show ?thesis
    unfolding get_webapps_slots_images_def Let_def
    by (intro collect_slots_distinct) (simp add: c split: sum.splits option.splits)
qed

lemma get_all_web_apps_data_distinct:
  "distinct (fst acc) \<and> distinct (snd acc) \<Longrightarrow>
   distinct (fst (get_all_web_apps_data az rg apps acc)) \<and>
   distinct (snd (get_all_web_apps_data az rg apps acc))"
proof (induction apps arbitrary: acc)
  case Nil
  then show ?case by simp
next
  case (Cons app apps)
  obtain all_images all_repositories where acc: "acc = (all_images, all_repositories)"
    by (cases acc)
  obtain images repositories where
    g: "get_webapps_slots_images az rg app = (images, repositories)"
    by (cases "get_webapps_slots_images az rg app")
  from get_webapps_slots_images_distinct[of az rg app] g
  have "distinct images" "distinct repositories" by simp_all
  then show ?case using Cons.prems by (simp add: acc g Cons.IH)
qed

text \<open>
  Claim C6, as the code has it. In a run that gets past the configuration, the cleanup pass
  runs exactly when it is requested and the map of unused images is not empty (so there are
  targets and discovered repositories); it is then given the full set of discovered
  repositories, which has no repetition, and the registry as the deletion left it. Run over
  a set of repositories, in dry-run mode or with a provider where deleting a manifest of
  one repository does not change the listing of another, the pass finds for each repository
  exactly the listed manifests that have no tag.
\<close>

theorem cleanup_pass_follows_deletion:
  assumes "arg_subscription_id a \<noteq> []" "arg_resource_group a \<noteq> []" "arg_registry_name a \<noteq> []"
    "arg_config_path a \<noteq> []"
    and "reaper_init environ clients = Inr az"
    and "load_configs fs py_str (arg_config_path a) = Inr web_apps"
    and "get_all_web_apps_data az (arg_resource_group a) web_apps ([], []) = (protected, repos)"
  shows "manifests_found (main a environ clients fs py_str st) =
      (if arg_cleanup_manifests a \<and> web_apps \<noteq> [] \<and> repos \<noteq> []
          \<and> identify_unused_images az st repos protected \<noteq> []
       then Some (fst (cleanup_unused_manifests az
                    (snd (delete_unused_images az st
                            (identify_unused_images az st repos protected) (\<not> arg_execute a)))
                    repos (\<not> arg_execute a)))
       else None)
    \<and> distinct repos
    \<and> (distinct rs
        \<and> (dry \<or> (\<forall>s r d r'. r' \<noteq> r \<longrightarrow>
               list_manifest_properties az (snd (delete_manifest az s r d)) r' =
               list_manifest_properties az s r')) \<longrightarrow>
        fst (cleanup_unused_manifests az s0 rs dry) = concat (map (untagged_in az s0) rs))"
proof (intro conjI impI)
  show "manifests_found (main a environ clients fs py_str st) =
      (if arg_cleanup_manifests a \<and> web_apps \<noteq> [] \<and> repos \<noteq> []
          \<and> identify_unused_images az st repos protected \<noteq> []
       then Some (fst (cleanup_unused_manifests az
                    (snd (delete_unused_images az st
                            (identify_unused_images az st repos protected) (\<not> arg_execute a)))
                    repos (\<not> arg_execute a)))
       else None)"
    using assms by (rule main_manifests_found)
  show "distinct repos"
    using get_all_web_apps_data_distinct[of "([], [])" az "arg_resource_group a" web_apps]
    by (simp add: assms(7))
next
  assume h: "distinct rs
        \<and> (dry \<or> (\<forall>s r d r'. r' \<noteq> r \<longrightarrow>
               list_manifest_properties az (snd (delete_manifest az s r d)) r' =
               list_manifest_properties az s r'))"
  then have "fst (cleanup_loop az dry rs ([], s0)) = [] @ concat (map (untagged_in az s0) rs)"
    by (intro cleanup_loop_found) simp_all
  then show "fst (cleanup_unused_manifests az s0 rs dry) = concat (map (untagged_in az s0) rs)"
    by (simp add: cleanup_unused_manifests_def)
qed

lemma example_init: "reaper_init example_environ (Inr example_azure) = Inr example_azure"
  by (simp add: reaper_init_def example_environ_def)

lemma example_load:
  "load_configs (example_fs example_config) (\<lambda>v. []) ''reaper/webapp.json'' = Inr [''app-a'']"
  by (simp add: load_configs_def example_fs_def example_config_def)

lemma example_collect:
  "get_all_web_apps_data example_azure ''rg'' [''app-a''] ([], []) =
     ([''myrepo:v2'', ''myrepo:v1''], [''myrepo''])"
  by (simp add: get_webapps_slots_images_def example_azure_def fake_azure_def
      collect_config_def collect_fx_version_def docker_marker_def str_replace_def
      replace_scan.simps last_segment_def extract_web_apps_images_def locator_match_def
      match_repo_tag_def host_suffix_def colon_def newline_def List.union_def)

lemma example_tags:
  "get_acr_repository_tags example_azure example_registry ''myrepo'' = [''v1'', ''v2'', ''v3'']"
  "get_acr_repository_tags example_azure clean_registry ''myrepo'' = [''v1'', ''v2'']"
  by (simp_all add: get_acr_repository_tags_def example_azure_def example_registry_def
      clean_registry_def fake_azure_def)

lemma example_identify:
  "identify_unused_images example_azure example_registry [''myrepo'']
     [''myrepo:v2'', ''myrepo:v1''] = [(''myrepo'', [''v3''])]"
  "identify_unused_images example_azure clean_registry [''myrepo'']
     [''myrepo:v2'', ''myrepo:v1''] = []"
  by (simp_all add: identify_unused_images_def example_tags)

lemma example_untagged:
  "untagged_in example_azure example_registry ''myrepo'' = [(''myrepo'', ''sha256:bb'')]"
  "untagged_in example_azure clean_registry ''myrepo'' = [(''myrepo'', ''sha256:bb'')]"
  by (simp_all add: untagged_in_def example_azure_def fake_azure_def example_registry_def
      clean_registry_def untagged_def)

lemma example_args_simps:
  "arg_subscription_id example_args = ''sub''" "arg_resource_group example_args = ''rg''"
  "arg_registry_name example_args = ''reg''" "arg_config_path example_args = ''reaper/webapp.json''"
  "arg_execute example_args = False" "arg_cleanup_manifests example_args = True"
  by (simp_all add: example_args_def)

theorem cleanup_pass_follows_deletion_witness:
  "manifests_found (main example_args example_environ (Inr example_azure)
      (example_fs example_config) (\<lambda>v. []) example_registry) =
     Some [(''myrepo'', ''sha256:bb'')]
   \<and> fst (cleanup_unused_manifests example_azure example_registry [''myrepo''] True) =
     [(''myrepo'', ''sha256:bb'')]"
proof -
  note t = cleanup_pass_follows_deletion [of example_args example_environ "Inr example_azure"
      example_azure "example_fs example_config" "\<lambda>v. []" "[''app-a'']"
      "[''myrepo:v2'', ''myrepo:v1'']" "[''myrepo'']" example_registry "[''myrepo'']" True
      example_registry,
      unfolded example_args_simps, OF _ _ _ _ example_init example_load example_collect]
  have t': "manifests_found (main example_args example_environ (Inr example_azure)
      (example_fs example_config) (\<lambda>v. []) example_registry) =
      Some (fst (cleanup_unused_manifests example_azure
                    (snd (delete_unused_images example_azure example_registry
                            [(''myrepo'', [''v3''])] True))
                    [''myrepo''] True))"
    and t'': "fst (cleanup_unused_manifests example_azure example_registry [''myrepo''] True) =
      concat (map (untagged_in example_azure example_registry) [''myrepo''])"
    using t by (simp_all add: example_identify)
  have d: "snd (delete_unused_images example_azure example_registry
                            [(''myrepo'', [''v3''])] True) = example_registry"
    by (simp add: delete_unused_images_def)
  show ?thesis using t' t'' by (simp add: d example_untagged)
qed

text \<open>
  Claim C6 as stated fails: with the pass requested and every tag in use, the pass does not
  run, although the discovered repository holds a manifest without tags.
\<close>

theorem cleanup_skipped_counterexample:
  "arg_cleanup_manifests example_args
   \<and> manifests_found (main example_args example_environ (Inr example_azure)
        (example_fs example_config) (\<lambda>v. []) clean_registry) = None
   \<and> untagged_in example_azure clean_registry ''myrepo'' = [(''myrepo'', ''sha256:bb'')]"
proof -
  have "manifests_found (main example_args example_environ (Inr example_azure)
        (example_fs example_config) (\<lambda>v. []) clean_registry) = None"
    by (subst main_manifests_found [where az = example_azure and web_apps = "[''app-a'']"
          and protected = "[''myrepo:v2'', ''myrepo:v1'']" and repos = "[''myrepo'']"])
       (simp_all add: example_args_simps example_init example_load example_collect
          example_identify del: get_all_web_apps_data.simps)
  then show ?thesis by (simp add: example_args_simps example_untagged)
qed

lemma load_configs_fails_iff:
  "isl (load_configs fs py_str p) \<longleftrightarrow>
     fs p = None
     \<or> (\<exists>e. fs p = Some (Inl e))
     \<or> (\<exists>v. fs p = Some (Inr v) \<and> (\<forall>kvs. v \<noteq> JObject kvs))
     \<or> (\<exists>kvs w. fs p = Some (Inr (JObject kvs)) \<and> map_of kvs ''webApps'' = Some w
           \<and> (\<forall>xs. w \<noteq> JArray xs))"
  by (auto simp: load_configs_def split: option.splits sum.splits setup_error.splits json.splits)

lemma reaper_init_fails_iff:
  "isl (reaper_init environ clients) \<longleftrightarrow>
     environ ''AZURE_TENANT_ID'' = None \<or> environ ''AZURE_CLIENT_ID'' = None
     \<or> environ ''AZURE_CLIENT_SECRET'' = None \<or> isl clients"
  by (auto simp: reaper_init_def split: option.splits)

text \<open>
  Claim C7, as the code has it. The exit status is 2 when a required argument is empty, 1
  when building the \<^verbatim>\<open>Reaper\<close> or loading the configuration raises, and 0 otherwise.
  Building raises exactly when one of the three environment variables is unset or the
  clients cannot be built. Loading raises exactly when the file is missing, cannot be read
  as JSON, is not a JSON object, or has a \<^verbatim>\<open>webApps\<close> field that is not a list. An object
  without \<^verbatim>\<open>webApps\<close> loads as the empty list of targets, and a list loads with every
  element passed through \<^verbatim>\<open>str\<close>.
\<close>

theorem exit_status_reflects_setup:
  "exit_status (main a environ clients fs py_str st) =
     (if arg_subscription_id a = [] \<or> arg_resource_group a = [] \<or> arg_registry_name a = []
         \<or> arg_config_path a = [] then 2
      else if isl (reaper_init environ clients) \<or> isl (load_configs fs py_str (arg_config_path a))
      then 1 else 0)
   \<and> (isl (reaper_init environ clients) \<longleftrightarrow>
        environ ''AZURE_TENANT_ID'' = None \<or> environ ''AZURE_CLIENT_ID'' = None
        \<or> environ ''AZURE_CLIENT_SECRET'' = None \<or> isl clients)
   \<and> (isl (load_configs fs py_str p) \<longleftrightarrow>
        fs p = None
        \<or> (\<exists>e. fs p = Some (Inl e))
        \<or> (\<exists>v. fs p = Some (Inr v) \<and> (\<forall>kvs. v \<noteq> JObject kvs))
        \<or> (\<exists>kvs w. fs p = Some (Inr (JObject kvs)) \<and> map_of kvs ''webApps'' = Some w
              \<and> (\<forall>xs. w \<noteq> JArray xs)))
   \<and> (fs p = Some (Inr (JObject kvs)) \<and> map_of kvs ''webApps'' = None \<longrightarrow>
        load_configs fs py_str p = Inr [])
   \<and> (fs p = Some (Inr (JObject kvs)) \<and> map_of kvs ''webApps'' = Some (JArray xs) \<longrightarrow>
        load_configs fs py_str p = Inr (map (str_of py_str) xs))"
proof (intro conjI impI)
  show "exit_status (main a environ clients fs py_str st) =
     (if arg_subscription_id a = [] \<or> arg_resource_group a = [] \<or> arg_registry_name a = []
         \<or> arg_config_path a = [] then 2
      else if isl (reaper_init environ clients) \<or> isl (load_configs fs py_str (arg_config_path a))
      then 1 else 0)"
    by (rule main_exit_status)
  show "isl (reaper_init environ clients) \<longleftrightarrow>
        environ ''AZURE_TENANT_ID'' = None \<or> environ ''AZURE_CLIENT_ID'' = None
        \<or> environ ''AZURE_CLIENT_SECRET'' = None \<or> isl clients"
    by (rule reaper_init_fails_iff)
  show "isl (load_configs fs py_str p) \<longleftrightarrow>
        fs p = None
        \<or> (\<exists>e. fs p = Some (Inl e))
        \<or> (\<exists>v. fs p = Some (Inr v) \<and> (\<forall>kvs. v \<noteq> JObject kvs))
        \<or> (\<exists>kvs w. fs p = Some (Inr (JObject kvs)) \<and> map_of kvs ''webApps'' = Some w
              \<and> (\<forall>xs. w \<noteq> JArray xs))"
    by (rule load_configs_fails_iff)
next
  assume "fs p = Some (Inr (JObject kvs)) \<and> map_of kvs ''webApps'' = None"
  then show "load_configs fs py_str p = Inr []" by (simp add: load_configs_def)
next
  assume "fs p = Some (Inr (JObject kvs)) \<and> map_of kvs ''webApps'' = Some (JArray xs)"
  then show "load_configs fs py_str p = Inr (map (str_of py_str) xs)"
    by (simp add: load_configs_def)
qed

theorem exit_status_reflects_setup_witness:
  "exit_status (main example_args example_environ (Inr example_azure)
      (\<lambda>path. None) (\<lambda>v. []) example_registry) = 1
   \<and> exit_status (main example_args example_environ (Inr example_azure)
      (example_fs (JArray [])) (\<lambda>v. []) example_registry) = 1
   \<and> exit_status (main example_args example_environ (Inr example_azure)
      (example_fs example_config) (\<lambda>v. []) example_registry) = 0
   \<and> load_configs (example_fs (JObject [(''webApps'', JArray [JString ''app-a'', JNumber ''7''])]))
        (\<lambda>v. ''7'') ''reaper/webapp.json'' = Inr [''app-a'', ''7'']"
proof -
  note i = example_init [THEN arg_cong [of _ _ isl], simplified]
  have 1: "exit_status (main example_args example_environ (Inr example_azure)
      (\<lambda>path. None) (\<lambda>v. []) example_registry) = 1"
    unfolding exit_status_reflects_setup [THEN conjunct1]
    by (simp add: example_args_simps i load_configs_def)
  have 2: "exit_status (main example_args example_environ (Inr example_azure)
      (example_fs (JArray [])) (\<lambda>v. []) example_registry) = 1"
    unfolding exit_status_reflects_setup [THEN conjunct1]
    by (simp add: example_args_simps i load_configs_def example_fs_def)
  have 3: "exit_status (main example_args example_environ (Inr example_azure)
      (example_fs example_config) (\<lambda>v. []) example_registry) = 0"
    unfolding exit_status_reflects_setup [THEN conjunct1]
    by (simp add: example_args_simps i example_load)
  have 4: "load_configs (example_fs (JObject [(''webApps'', JArray [JString ''app-a'', JNumber ''7''])]))
        (\<lambda>v. ''7'') ''reaper/webapp.json'' = Inr (map (str_of (\<lambda>v. ''7'')) [JString ''app-a'', JNumber ''7''])"
    using exit_status_reflects_setup [of example_args example_environ "Inr example_azure"
        "example_fs (JObject [(''webApps'', JArray [JString ''app-a'', JNumber ''7''])])"
        "\<lambda>v. ''7''" example_registry "''reaper/webapp.json''"
        "[(''webApps'', JArray [JString ''app-a'', JNumber ''7''])]"
        "[JString ''app-a'', JNumber ''7'']"]
    by (simp add: example_fs_def)
  show ?thesis using 1 2 3 4 by simp
qed

text \<open>
  Claim C7 as stated fails: a configuration object without the \<^verbatim>\<open>webApps\<close> field is not
  a fatal error; the run exits with status 0.
\<close>

theorem missing_field_exits_zero_counterexample:
  "example_fs (JObject []) ''reaper/webapp.json'' = Some (Inr (JObject []))
   \<and> map_of [] ''webApps'' = (None :: json option)
   \<and> exit_status (main example_args example_environ (Inr example_azure)
        (example_fs (JObject [])) (\<lambda>v. []) example_registry) = 0"
  by (simp add: main_exit_status example_args_simps example_init load_configs_def example_fs_def)

end
